theory Spec2Isabelle
  imports Main "HOL-Library.Sublist"
begin

section \<open>Python strings\<close>

text \<open>
  The application is one Python file, \<^verbatim>\<open>app.py\<close>. Its strings are modelled as
  \<^typ>\<open>string\<close>, one \<^typ>\<open>char\<close> per code point, which covers the code points
  below 256. \<^verbatim>\<open>str.isspace\<close> is true there for the code points 9 to 13, 28 to 31, 32,
  133 and 160; \<^verbatim>\<open>str.strip()\<close> removes the leading and the trailing run of them.
\<close>

definition isspace :: "char \<Rightarrow> bool" where
  "isspace c = (of_char c \<in> {9, 10, 11, 12, 13, 28, 29, 30, 31, 32, 133, 160 :: nat})"

definition strip :: "string \<Rightarrow> string" where
  "strip s = rev (dropWhile isspace (rev (dropWhile isspace s)))"

text \<open>
  \<^verbatim>\<open>str.lower()\<close> maps \<^verbatim>\<open>A-Z\<close> and the upper-case letters of the Latin-1
  supplement (192 to 222 without the multiplication sign 215) to the code point 32 above
  and leaves every other code point below 256 alone.
\<close>

definition lower_char :: "char \<Rightarrow> char" where
  "lower_char c =
     (let n = (of_char c :: nat)
      in if (65 \<le> n \<and> n \<le> 90) \<or> (192 \<le> n \<and> n \<le> 222 \<and> n \<noteq> 215)
         then char_of (n + 32) else c)"

definition lower :: "string \<Rightarrow> string" where
  "lower s = map lower_char s"

text \<open>
  \<^verbatim>\<open>sub in s\<close> on strings: \<^verbatim>\<open>sub\<close> occurs in \<^verbatim>\<open>s\<close> at some position. The
  search tries every start position from the left.
\<close>

fun str_in :: "string \<Rightarrow> string \<Rightarrow> bool" where
  "str_in sub [] = (sub = [])"
| "str_in sub (c # s) = (prefix sub (c # s) \<or> str_in sub s)"

section \<open>Configuration\<close>

text \<open>
  \<^verbatim>\<open>STYLE_PRESETS\<close> (lines 17 to 26) is a dict literal; its keys in order are the
  options of the style select box. \<^verbatim>\<open>STYLE_PRESETS[k]\<close> raises \<^verbatim>\<open>KeyError\<close> on a
  key that is not in the dict.
\<close>

definition STYLE_PRESETS :: "(string \<times> string) list" where
  "STYLE_PRESETS =
    [(''None'', ''''),
     (''Anime'', '', anime style, vibrant colors, Studio Ghibli inspired, detailed illustration''),
     (''Realistic'', '', photorealistic, highly detailed, 8K resolution, professional photography''),
     (''Digital Art'', '', digital painting, artstation trending, concept art, highly detailed''),
     (''Watercolor'', '', watercolor painting, soft colors, artistic, delicate brushstrokes''),
     (''Oil Painting'', '', oil painting, classical art style, textured canvas, rich colors''),
     (''Cyberpunk'', '', cyberpunk style, neon lights, futuristic, sci-fi, dark atmosphere''),
     (''Fantasy'', '', fantasy art, magical, enchanted, epic scene, mystical atmosphere'')]"

text \<open>
  The exceptions that end a script run early: a \<^verbatim>\<open>KeyError\<close> of the dict lookup,
  and the two control exceptions of the host framework, raised by \<^verbatim>\<open>st.stop()\<close> and
  \<^verbatim>\<open>st.rerun()\<close>.
\<close>

datatype exn = KeyError string | StopException | RerunException

definition getitem :: "(string \<times> string) list \<Rightarrow> string \<Rightarrow> exn + string" where
  "getitem d k = (case map_of d k of None \<Rightarrow> Inl (KeyError k) | Some v \<Rightarrow> Inr v)"

text \<open>
  \<^verbatim>\<open>HUGGINGFACE_TOKEN = os.getenv("HUGGINGFACE_TOKEN")\<close> is \<^verbatim>\<open>None\<close> when the
  variable is not set. \<^verbatim>\<open>not HUGGINGFACE_TOKEN\<close> holds for \<^verbatim>\<open>None\<close> and for the
  empty string.
\<close>

definition not_token :: "string option \<Rightarrow> bool" where
  "not_token t = (case t of None \<Rightarrow> True | Some s \<Rightarrow> s = [])"

section \<open>Session state and what a script run shows\<close>

text \<open>
  One entry of \<^verbatim>\<open>st.session_state.image_history\<close>: the dict built at lines 164 to
  170, with the keys \<^verbatim>\<open>image\<close>, \<^verbatim>\<open>prompt\<close>, \<^verbatim>\<open>enhanced_prompt\<close>, \<^verbatim>\<open>style\<close>
  and \<^verbatim>\<open>timestamp\<close>. The image payload and the clock value are opaque.
\<close>

record ('img, 'ts) image_data =
  image_of :: 'img
  prompt_of :: string
  enhanced_prompt_of :: string
  style_of :: string
  timestamp_of :: 'ts

text \<open>
  The messages and the history gallery a run puts on the page, in the order of the calls.
  Each constructor stands for one call with a fixed text:
  \<^item> \<open>Error_token_not_found\<close>: \<^verbatim>\<open>st.error("... HuggingFace API token not found!")\<close>, line 78;
  \<^item> \<open>Info_setup_instructions\<close>: \<^verbatim>\<open>st.info("**Setup Instructions:** ...")\<close>, line 79;
  \<^item> \<open>Info_style_adds suffix\<close>: \<^verbatim>\<open>st.info(f"**Style adds:** {suffix}")\<close>, line 99;
  \<^item> \<open>Warning_enter_description\<close>: \<^verbatim>\<open>st.warning("... Please enter a description for your image.")\<close>, line 146;
  \<^item> \<open>Code_enhanced_prompt p\<close>: \<^verbatim>\<open>st.code(enhanced_prompt)\<close>, line 155;
  \<^item> \<open>Error_model_loading\<close>: \<^verbatim>\<open>st.error("... Model is currently loading. ...")\<close>, line 57;
  \<^item> \<open>Error_rate_limit\<close>: \<^verbatim>\<open>st.error("... Rate limit reached. ...")\<close>, line 59;
  \<^item> \<open>Error_authentication_failed\<close>: \<^verbatim>\<open>st.error("... Authentication failed. ...")\<close>, line 61;
  \<^item> \<open>Error_occurred msg\<close>: \<^verbatim>\<open>st.error(f"... An error occurred: {error_msg}")\<close>, line 63;
  \<^item> \<open>Success_image_generated\<close>: \<^verbatim>\<open>st.success("... Image generated successfully!")\<close>, line 161;
  \<^item> \<open>History_gallery records\<close>: the grid of lines 209 to 237, one cell per record of
    the history in list order.
  Titles, separators, tips, the image of the current run and the download buttons read
  neither the history nor the remote service's answer and are left out.
\<close>

datatype ('img, 'ts) ui_event =
    Error_token_not_found
  | Info_setup_instructions
  | Info_style_adds string
  | Warning_enter_description
  | Code_enhanced_prompt string
  | Error_model_loading
  | Error_rate_limit
  | Error_authentication_failed
  | Error_occurred string
  | Success_image_generated
  | History_gallery "('img, 'ts) image_data list"

text \<open>
  The state a script run threads through: the history list of the session, the page
  written so far, and the prompts sent to the remote endpoint so far.
\<close>

record ('img, 'ts) world =
  image_history :: "('img, 'ts) image_data list"
  ui :: "('img, 'ts) ui_event list"
  calls :: "string list"

text \<open>
  What one script run reads from outside: the widget values, the clock, and the answer
  of \<^verbatim>\<open>client.text_to_image(prompt, model=MODEL_NAME)\<close>, which is either an image or
  an exception with the text \<^verbatim>\<open>str(e)\<close>. The select box only returns keys of
  \<^verbatim>\<open>STYLE_PRESETS\<close>, and the host framework reports a button as pressed only in the
  run its click starts, so no run sees both buttons pressed; the model allows any values
  and the theorems say where they matter.
\<close>

record ('img, 'ts) inputs =
  selected_style :: string
  prompt :: string
  generate_button :: bool
  clear_history_button :: bool
  now :: 'ts
  text_to_image :: "string \<Rightarrow> string + 'img"

type_synonym ('img, 'ts) outcome = "exn option \<times> ('img, 'ts) world"

definition emit :: "('img, 'ts) ui_event \<Rightarrow> ('img, 'ts) world \<Rightarrow> ('img, 'ts) world" where
  "emit e w = w\<lparr>ui := ui w @ [e]\<rparr>"

section \<open>The remote call\<close>

text \<open>The \<^verbatim>\<open>if/elif/else\<close> chain of lines 56 to 63 on \<^verbatim>\<open>error_msg = str(e)\<close>.\<close>

definition error_message :: "string \<Rightarrow> ('img, 'ts) ui_event" where
  "error_message error_msg =
     (if str_in ''503'' error_msg \<or> str_in ''loading'' (lower error_msg) then Error_model_loading
      else if str_in ''429'' error_msg \<or> str_in ''rate limit'' (lower error_msg) then Error_rate_limit
      else if str_in ''401'' error_msg \<or> str_in ''unauthorized'' (lower error_msg)
        then Error_authentication_failed
      else Error_occurred error_msg)"

text \<open>
  \<^verbatim>\<open>generate_image(prompt)\<close>, lines 38 to 65: one call of the endpoint; the image on
  success, and on any exception one error message and \<^verbatim>\<open>None\<close>.
\<close>

definition generate_image ::
  "(string \<Rightarrow> string + 'img) \<Rightarrow> string \<Rightarrow> ('img, 'ts) world \<Rightarrow> 'img option \<times> ('img, 'ts) world" where
  "generate_image remote p w =
     (let w1 = w\<lparr>calls := calls w @ [p]\<rparr>
      in case remote p of
           Inr img \<Rightarrow> (Some img, w1)
         | Inl error_msg \<Rightarrow> (None, emit (error_message error_msg) w1))"

section \<open>The script run\<close>

text \<open>Lines 149 and 150: the style suffix looked up and appended to the stripped prompt.\<close>

definition enhanced_prompt :: "string \<Rightarrow> string \<Rightarrow> exn + string" where
  "enhanced_prompt p style =
     (case getitem STYLE_PRESETS style of
        Inl e \<Rightarrow> Inl e
      | Inr style_suffix \<Rightarrow> Inr (strip p @ style_suffix))"

text \<open>
  Lines 171 to 175: \<^verbatim>\<open>insert(0, image_data)\<close>, then the slice \<^verbatim>\<open>[:10]\<close> when the
  list has more than 10 entries.
\<close>

definition push_history ::
  "('img, 'ts) image_data \<Rightarrow> ('img, 'ts) image_data list \<Rightarrow> ('img, 'ts) image_data list" where
  "push_history d h =
     (let h1 = d # h in if length h1 > 10 then take 10 h1 else h1)"

text \<open>Lines 98 and 99 of the sidebar, the only part of it that can raise.\<close>

definition sidebar :: "('img, 'ts) inputs \<Rightarrow> ('img, 'ts) world \<Rightarrow> ('img, 'ts) outcome" where
  "sidebar inp w =
     (if selected_style inp \<noteq> ''None''
      then case getitem STYLE_PRESETS (selected_style inp) of
             Inl e \<Rightarrow> (Some e, w)
           | Inr style_suffix \<Rightarrow> (None, emit (Info_style_adds style_suffix) w)
      else (None, w))"

text \<open>
  Lines 144 to 194. A returned image is a \<^verbatim>\<open>PIL.Image\<close> object, which is always true
  in \<^verbatim>\<open>if image:\<close>; \<^verbatim>\<open>None\<close> is false.
\<close>

definition generation_logic :: "('img, 'ts) inputs \<Rightarrow> ('img, 'ts) world \<Rightarrow> ('img, 'ts) outcome" where
  "generation_logic inp w =
     (if generate_button inp then
        (if strip (prompt inp) = [] then (None, emit Warning_enter_description w)
         else
           (case enhanced_prompt (prompt inp) (selected_style inp) of
              Inl e \<Rightarrow> (Some e, w)
            | Inr enhanced \<Rightarrow>
                (let w1 = (if selected_style inp \<noteq> ''None''
                           then emit (Code_enhanced_prompt enhanced) w else w)
                 in (case generate_image (text_to_image inp) enhanced w1 of
                       (None, w2) \<Rightarrow> (None, w2)
                     | (Some img, w2) \<Rightarrow>
                         (let w3 = emit Success_image_generated w2;
                              d = \<lparr>image_of = img,
                                   prompt_of = strip (prompt inp),
                                   enhanced_prompt_of = enhanced,
                                   style_of = selected_style inp,
                                   timestamp_of = now inp\<rparr>
                          in (None, w3\<lparr>image_history := push_history d (image_history w3)\<rparr>))))))
      else (None, w))"

text \<open>
  Lines 197 to 237: the gallery is drawn only for a non-empty history; its clear button
  replaces the history by the empty list and reruns the script.
\<close>

definition history_gallery :: "('img, 'ts) inputs \<Rightarrow> ('img, 'ts) world \<Rightarrow> ('img, 'ts) outcome" where
  "history_gallery inp w =
     (if image_history w \<noteq> [] then
        if clear_history_button inp then (Some RerunException, w\<lparr>image_history := []\<rparr>)
        else (None, emit (History_gallery (image_history w)) w)
      else (None, w))"

text \<open>
  The session state holds the history under the key \<^verbatim>\<open>image_history\<close>; the key is
  missing (\<open>None\<close>) in a fresh session and lines 69 and 70 then store the empty list.
\<close>

definition init_history :: "('img, 'ts) image_data list option \<Rightarrow> ('img, 'ts) image_data list" where
  "init_history session = (case session of None \<Rightarrow> [] | Some h \<Rightarrow> h)"

text \<open>
  \<^verbatim>\<open>main()\<close>, one script run: the state is initialised, a missing token stops the
  run (lines 77 to 85), then the sidebar, the generation logic and the gallery run in
  this order; an exception ends the run where it is raised.
\<close>

definition main ::
  "string option \<Rightarrow> ('img, 'ts) inputs \<Rightarrow> ('img, 'ts) image_data list option \<Rightarrow> ('img, 'ts) outcome" where
  "main HUGGINGFACE_TOKEN inp session =
     (let w0 = \<lparr>image_history = init_history session, ui = [], calls = []\<rparr>
      in if not_token HUGGINGFACE_TOKEN
         then (Some StopException, emit Info_setup_instructions (emit Error_token_not_found w0))
         else case sidebar inp w0 of
                (Some e, w1) \<Rightarrow> (Some e, w1)
              | (None, w1) \<Rightarrow>
                  (case generation_logic inp w1 of
                     (Some e, w2) \<Rightarrow> (Some e, w2)
                   | (None, w2) \<Rightarrow> history_gallery inp w2))"

text \<open>
  The session states an interactive session can be in: the fresh one, and the one left
  by a script run from a state the session can be in. The history persists between the
  runs of a session, whatever way a run ended.
\<close>

inductive reachable ::
  "string option \<Rightarrow> ('img, 'ts) image_data list option \<Rightarrow> bool"
  for HUGGINGFACE_TOKEN :: "string option" where
  fresh: "reachable HUGGINGFACE_TOKEN None"
| rerun: "reachable HUGGINGFACE_TOKEN session \<Longrightarrow>
          main HUGGINGFACE_TOKEN inp session = (e, w) \<Longrightarrow>
          reachable HUGGINGFACE_TOKEN (Some (image_history w))"

section \<open>Notions of the specification\<close>

text \<open>
  "The message contains \<open>sub\<close> (case-insensitive)": some stretch of the message is
  \<open>sub\<close> once it is lower-cased. Plain containment is \<^const>\<open>sublist\<close>.
\<close>

definition contains_ci :: "string \<Rightarrow> string \<Rightarrow> bool" where
  "contains_ci sub s = (\<exists>ps mid ss. s = ps @ mid @ ss \<and> lower mid = sub)"

text \<open>
  The four kinds of a failed remote call and their precedence, as section 4.2 of the
  specification words them; \<open>Unknown\<close> carries the raw message.
\<close>

datatype error_kind = ModelLoading | RateLimited | Unauthorized | Unknown string

definition spec_classify :: "string \<Rightarrow> error_kind" where
  "spec_classify msg =
     (if sublist ''503'' msg \<or> contains_ci ''loading'' msg then ModelLoading
      else if sublist ''429'' msg \<or> contains_ci ''rate limit'' msg then RateLimited
      else if sublist ''401'' msg \<or> contains_ci ''unauthorized'' msg then Unauthorized
      else Unknown msg)"

text \<open>The kind an error message shown on the page stands for.\<close>

fun kind_of :: "('img, 'ts) ui_event \<Rightarrow> error_kind option" where
  "kind_of Error_model_loading = Some ModelLoading"
| "kind_of Error_rate_limit = Some RateLimited"
| "kind_of Error_authentication_failed = Some Unauthorized"
| "kind_of (Error_occurred msg) = Some (Unknown msg)"
| "kind_of _ = None"

text \<open>
  The relation between the fields of one history record: the stored style is a key of
  the table, the enhanced prompt is the stored prompt followed by that key's suffix, and
  the stored prompt is stripped.
\<close>

definition record_ok :: "('img, 'ts) image_data \<Rightarrow> bool" where
  "record_ok d =
     ((case map_of STYLE_PRESETS (style_of d) of
         None \<Rightarrow> False
       | Some style_suffix \<Rightarrow> enhanced_prompt_of d = prompt_of d @ style_suffix)
      \<and> strip (prompt_of d) = prompt_of d)"

text \<open>Sample data for concrete runs: record number \<open>n\<close> of a session without style.\<close>

definition sample_record :: "nat \<Rightarrow> (nat, nat) image_data" where
  "sample_record n =
     \<lparr>image_of = n, prompt_of = ''a cat'', enhanced_prompt_of = ''a cat'',
      style_of = ''None'', timestamp_of = n\<rparr>"

definition sample_inputs :: "string \<Rightarrow> string \<Rightarrow> (string + nat) \<Rightarrow> (nat, nat) inputs" where
  "sample_inputs style p answer =
     \<lparr>selected_style = style, prompt = p, generate_button = True,
      clear_history_button = False, now = 7, text_to_image = (\<lambda>_. answer)\<rparr>"

section \<open>Strings and lists\<close>

lemma str_in_sublist: "str_in sub s = sublist sub s"
  by (induction s) (auto simp: sublist_Cons_right)

lemma sublist_lower: "sublist sub (lower s) = contains_ci sub s"
proof
  assume "sublist sub (lower s)"
  then obtain ps ss where "map lower_char s = ps @ sub @ ss"
    by (auto simp: sublist_def lower_def)
  then have "\<exists>us vs. s = us @ vs \<and> ps = map lower_char us \<and> sub @ ss = map lower_char vs"
    by (rule map_eq_append_conv [THEN iffD1])
  then obtain us vs where us: "s = us @ vs" and vs: "sub @ ss = map lower_char vs"
    by blast
  from vs have "\<exists>b c. vs = b @ c \<and> sub = map lower_char b \<and> ss = map lower_char c"
    by (rule append_eq_map_conv [THEN iffD1])
  then obtain b c where "vs = b @ c" and "sub = map lower_char b"
    by blast
  with us have "s = us @ b @ c" and "lower b = sub"
    by (simp_all add: lower_def)
  then show "contains_ci sub s"
    unfolding contains_ci_def by blast
next
  assume "contains_ci sub s"
  then obtain ps mid ss where s: "s = ps @ mid @ ss" and m: "lower mid = sub"
    unfolding contains_ci_def by blast
  have "lower s = lower ps @ sub @ lower ss"
    using m by (simp add: s lower_def)
  then show "sublist sub (lower s)"
    unfolding sublist_def by blast
qed

text \<open>Stripping a stripped string changes nothing.\<close>

lemma dropWhile_rev_dropWhile_rev:
  assumes "dropWhile P u = u"
  shows "dropWhile P (rev (dropWhile P (rev u))) = rev (dropWhile P (rev u))"
proof (cases "rev (dropWhile P (rev u)) = []")
  case True
  show ?thesis unfolding True by simp
next
  case False
  have "rev (takeWhile P (rev u) @ dropWhile P (rev u)) = u"
    by simp
  then have "u = rev (dropWhile P (rev u)) @ rev (takeWhile P (rev u))"
    unfolding rev_append by simp
  then have "hd u = hd (rev (dropWhile P (rev u)))"
    using False by (metis hd_append2)
  moreover have "u \<noteq> []"
    using False by auto
  then have "\<not> P (hd u)"
    using assms by (simp add: dropWhile_eq_self_iff)
  ultimately show ?thesis
    by (simp add: dropWhile_eq_self_iff)
qed

lemma strip_strip: "strip (strip s) = strip s"
  by (simp add: strip_def dropWhile_rev_dropWhile_rev)

lemma take_append_take: "take n (xs @ take n ys) = take n (xs @ ys)"
  by (simp add: min_def)

lemma push_history_take: "push_history d h = take 10 (d # h)"
  by (simp add: push_history_def Let_def)

lemma fold_push_history_take: "fold push_history ds (take 10 h) = take 10 (rev ds @ h)"
proof (induction ds arbitrary: h)
  case Nil
  show ?case by simp
next
  case (Cons d ds)
  have "fold push_history (d # ds) (take 10 h) = fold push_history ds (take 10 (d # take 10 h))"
    by (simp only: fold_simps push_history_take)
  also have "\<dots> = take 10 (rev ds @ d # take 10 h)"
    by (rule Cons.IH)
  also have "\<dots> = take 10 ((rev ds @ [d]) @ take 10 h)"
    by simp
  also have "\<dots> = take 10 ((rev ds @ [d]) @ h)"
    by (rule take_append_take)
  finally show ?case by simp
qed

section \<open>The phases of a script run, case by case\<close>

lemma emit_simps [simp]:
  "image_history (emit ev w) = image_history w"
  "calls (emit ev w) = calls w"
  "ui (emit ev w) = ui w @ [ev]"
  by (simp_all add: emit_def)

lemma sidebar_cases:
  assumes "sidebar inp w = (e, w')"
  shows "image_history w' = image_history w \<and> calls w' = calls w \<and>
         (e = None \<or> e = Some (KeyError (selected_style inp)) \<and>
            map_of STYLE_PRESETS (selected_style inp) = None)
         \<and> (e = None \<longrightarrow>
              selected_style inp = ''None'' \<or> map_of STYLE_PRESETS (selected_style inp) \<noteq> None)
         \<and> (ui w' = ui w \<or> (\<exists>style_suffix. ui w' = ui w @ [Info_style_adds style_suffix]))"
  using assms
  by (auto simp: sidebar_def getitem_def emit_def split: if_splits option.splits)

lemma error_message_not_success [simp]:
  "error_message msg \<noteq> Success_image_generated"
  "Success_image_generated \<noteq> error_message msg"
  by (simp_all add: error_message_def)

lemma generate_image_Inl:
  "remote p = Inl msg \<Longrightarrow>
   generate_image remote p w = (None, w\<lparr>calls := calls w @ [p], ui := ui w @ [error_message msg]\<rparr>)"
  by (simp add: generate_image_def emit_def)

lemma generate_image_Inr:
  "remote p = Inr img \<Longrightarrow>
   generate_image remote p w = (Some img, w\<lparr>calls := calls w @ [p]\<rparr>)"
  by (simp add: generate_image_def)

text \<open>The five ways the generation block can end.\<close>

lemma generation_logic_cases:
  assumes "generation_logic inp w = (e, w')"
  obtains
    (idle) "\<not> generate_button inp" "e = None" "w' = w"
  | (empty) "generate_button inp" "strip (prompt inp) = []" "e = None"
      "w' = emit Warning_enter_description w"
  | (keyerror) "generate_button inp" "strip (prompt inp) \<noteq> []"
      "map_of STYLE_PRESETS (selected_style inp) = None"
      "e = Some (KeyError (selected_style inp))" "w' = w"
  | (failed) style_suffix msg where "generate_button inp" "strip (prompt inp) \<noteq> []"
      "map_of STYLE_PRESETS (selected_style inp) = Some style_suffix"
      "text_to_image inp (strip (prompt inp) @ style_suffix) = Inl msg"
      "e = None"
      "w' = w\<lparr>calls := calls w @ [strip (prompt inp) @ style_suffix],
              ui := ui w @ (if selected_style inp \<noteq> ''None''
                            then [Code_enhanced_prompt (strip (prompt inp) @ style_suffix)] else [])
                         @ [error_message msg]\<rparr>"
  | (succeeded) style_suffix img where "generate_button inp" "strip (prompt inp) \<noteq> []"
      "map_of STYLE_PRESETS (selected_style inp) = Some style_suffix"
      "text_to_image inp (strip (prompt inp) @ style_suffix) = Inr img"
      "e = None"
      "w' = w\<lparr>calls := calls w @ [strip (prompt inp) @ style_suffix],
              ui := ui w @ (if selected_style inp \<noteq> ''None''
                            then [Code_enhanced_prompt (strip (prompt inp) @ style_suffix)] else [])
                         @ [Success_image_generated],
              image_history := push_history
                \<lparr>image_of = img, prompt_of = strip (prompt inp),
                 enhanced_prompt_of = strip (prompt inp) @ style_suffix,
                 style_of = selected_style inp, timestamp_of = now inp\<rparr> (image_history w)\<rparr>"
proof (cases "generate_button inp")
  case False
  with assms show ?thesis by (intro idle) (simp_all add: generation_logic_def)
next
  case gb: True
  show ?thesis
  proof (cases "strip (prompt inp) = []")
    case True
    with gb assms show ?thesis by (intro empty) (simp_all add: generation_logic_def)
  next
    case ne: False
    show ?thesis
    proof (cases "map_of STYLE_PRESETS (selected_style inp)")
      case None
      with gb ne assms show ?thesis
        by (intro keyerror) (auto simp: generation_logic_def enhanced_prompt_def getitem_def)
    next
      case (Some sfx)
      show ?thesis
      proof (cases "text_to_image inp (strip (prompt inp) @ sfx)")
        case (Inl msg)
        with gb ne Some assms show ?thesis
          by (intro failed [of sfx msg])
             (auto simp: generation_logic_def enhanced_prompt_def getitem_def
                generate_image_Inl emit_def Let_def)
      next
        case (Inr img)
        with gb ne Some assms show ?thesis
          by (intro succeeded [of sfx img])
             (auto simp: generation_logic_def enhanced_prompt_def getitem_def
                generate_image_Inr emit_def Let_def)
      qed
    qed
  qed
qed

lemma history_gallery_cases:
  assumes "history_gallery inp w = (e, w')"
  shows "(image_history w' = image_history w \<and> e = None \<or>
          image_history w' = [] \<and> e = Some RerunException)
         \<and> calls w' = calls w
         \<and> (clear_history_button inp \<longrightarrow> image_history w' = [])
         \<and> (\<not> clear_history_button inp \<longrightarrow> image_history w' = image_history w \<and> e = None)
         \<and> (ui w' = ui w \<or> ui w' = ui w @ [History_gallery (image_history w)])
         \<and> (image_history w = [] \<longrightarrow> w' = w)"
  using assms
  by (auto simp: history_gallery_def emit_def split: if_splits)

lemma main_no_token:
  "not_token tok \<Longrightarrow>
   main tok inp session =
     (Some StopException,
      \<lparr>image_history = init_history session,
       ui = [Error_token_not_found, Info_setup_instructions], calls = []\<rparr>)"
  by (simp add: main_def emit_def)

lemma main_cases:
  assumes "main tok inp session = (e, w')" and "\<not> not_token tok"
  obtains
    (sidebar_raised) k w1 where
      "sidebar inp \<lparr>image_history = init_history session, ui = [], calls = []\<rparr> = (Some k, w1)"
      "e = Some k" "w' = w1"
  | (generation_raised) k w1 w2 where
      "sidebar inp \<lparr>image_history = init_history session, ui = [], calls = []\<rparr> = (None, w1)"
      "generation_logic inp w1 = (Some k, w2)" "e = Some k" "w' = w2"
  | (completed) w1 w2 where
      "sidebar inp \<lparr>image_history = init_history session, ui = [], calls = []\<rparr> = (None, w1)"
      "generation_logic inp w1 = (None, w2)" "history_gallery inp w2 = (e, w')"
proof -
  obtain e1 w1 where
    s: "sidebar inp \<lparr>image_history = init_history session, ui = [], calls = []\<rparr> = (e1, w1)"
    by (cases "sidebar inp \<lparr>image_history = init_history session, ui = [], calls = []\<rparr>")
  obtain e2 w2 where g: "generation_logic inp w1 = (e2, w2)"
    by (cases "generation_logic inp w1")
  show ?thesis
  proof (cases e1)
    case (Some k)
    with assms s show ?thesis
      by (intro sidebar_raised [of k w1]) (simp_all add: main_def)
  next
    case None
    note e1 = this
    show ?thesis
    proof (cases e2)
      case (Some k)
      with assms s g e1 show ?thesis
        by (intro generation_raised [of w1 k w2]) (simp_all add: main_def)
    next
      case None
      with assms s g e1 show ?thesis
        by (intro completed [of w1 w2]) (simp_all add: main_def)
    qed
  qed
qed

text \<open>What a script run can do to the history: nothing, empty it, or push one record.\<close>

lemma main_history:
  assumes "main tok inp session = (e, w')"
  shows "image_history w' = init_history session \<or> image_history w' = [] \<or>
         (\<exists>img style_suffix.
            map_of STYLE_PRESETS (selected_style inp) = Some style_suffix \<and>
            image_history w' =
              push_history
                \<lparr>image_of = img, prompt_of = strip (prompt inp),
                 enhanced_prompt_of = strip (prompt inp) @ style_suffix,
                 style_of = selected_style inp, timestamp_of = now inp\<rparr>
                (init_history session))"
proof (cases "not_token tok")
  case True
  with assms show ?thesis by (auto simp: main_no_token)
next
  case False
  from assms False show ?thesis
  proof (cases rule: main_cases)
    case (sidebar_raised k w1)
    then show ?thesis using sidebar_cases [of inp _ "Some k" w1] by simp
  next
    case (generation_raised k w1 w2)
    from generation_raised(2) have "w2 = w1"
      by (cases rule: generation_logic_cases) simp_all
    with generation_raised show ?thesis using sidebar_cases [of inp _ None w1] by simp
  next
    case (completed w1 w2)
    have h1: "image_history w1 = init_history session"
      using sidebar_cases [OF completed(1)] by simp
    have h2: "image_history w' = image_history w2 \<or> image_history w' = []"
      using history_gallery_cases [OF completed(3)] by auto
    from completed(2) show ?thesis
    proof (cases rule: generation_logic_cases)
      case (succeeded style_suffix img)
      then show ?thesis using h1 h2 by auto
    qed (use h1 h2 in auto)
  qed
qed

lemma main_length:
  assumes "main tok inp session = (e, w')" and "length (init_history session) \<le> 10"
  shows "length (image_history w') \<le> 10"
  using main_history [OF assms(1)] assms(2) by (auto simp: push_history_take)

lemma reachable_length: "reachable tok session \<Longrightarrow> length (init_history session) \<le> 10"
proof (induction rule: reachable.induct)
  case fresh
  show ?case by (simp add: init_history_def)
next
  case (rerun session inp e w)
  then show ?case using main_length [of tok inp session e w] by (simp add: init_history_def)
qed

text \<open>A run whose generation succeeds, with the clear button not pressed.\<close>

lemma main_succeeded:
  assumes "\<not> not_token tok" and "generate_button inp" and "strip (prompt inp) \<noteq> []"
    and "map_of STYLE_PRESETS (selected_style inp) = Some style_suffix"
    and "text_to_image inp (strip (prompt inp) @ style_suffix) = Inr img"
    and "\<not> clear_history_button inp"
  shows "fst (main tok inp session) = None
    \<and> calls (snd (main tok inp session)) = [strip (prompt inp) @ style_suffix]
    \<and> image_history (snd (main tok inp session))
      = take 10
          (\<lparr>image_of = img, prompt_of = strip (prompt inp),
            enhanced_prompt_of = strip (prompt inp) @ style_suffix,
            style_of = selected_style inp, timestamp_of = now inp\<rparr> # init_history session)"
proof -
  obtain e w' where run: "main tok inp session = (e, w')"
    by (cases "main tok inp session")
  from run assms(1) have "e = None \<and> calls w' = [strip (prompt inp) @ style_suffix]
    \<and> image_history w'
      = take 10
          (\<lparr>image_of = img, prompt_of = strip (prompt inp),
            enhanced_prompt_of = strip (prompt inp) @ style_suffix,
            style_of = selected_style inp, timestamp_of = now inp\<rparr> # init_history session)"
  proof (cases rule: main_cases)
    case (sidebar_raised k w1)
    from sidebar_cases [OF sidebar_raised(1)] assms(4) show ?thesis by simp
  next
    case (generation_raised k w1 w2)
    from generation_raised(2) show ?thesis
      by (cases rule: generation_logic_cases) (simp_all add: assms)
  next
    case (completed w1 w2)
    note sb = sidebar_cases [OF completed(1)]
    note hg = history_gallery_cases [OF completed(3)]
    from completed(2) show ?thesis
    proof (cases rule: generation_logic_cases)
      case (succeeded style_suffix' img')
      with assms have "style_suffix' = style_suffix" and "img' = img"
        by simp_all
      with succeeded sb hg assms(6) show ?thesis
        by (simp add: push_history_take)
    next
      case (failed style_suffix' msg)
      with assms(4,5) show ?thesis by simp
    qed (simp_all add: assms)
  qed
  with run show ?thesis by simp
qed

text \<open>Without the token no run changes the history.\<close>

lemma reachable_no_token:
  assumes "not_token tok"
  shows "reachable tok s \<Longrightarrow> init_history s = []"
proof (induction rule: reachable.induct)
  case fresh
  show ?case by (simp add: init_history_def)
next
  case (rerun session inp e w)
  from rerun(2) main_no_token [OF assms, of inp session]
  have "image_history w = init_history session"
    by auto
  with rerun(3) show ?case
    by (simp add: init_history_def)
qed

text \<open>The record a run pushes satisfies the relation between its fields, and a run keeps it.\<close>

lemma record_ok_new:
  assumes "map_of STYLE_PRESETS style = Some style_suffix"
  shows "record_ok \<lparr>image_of = img, prompt_of = strip p, enhanced_prompt_of = strip p @ style_suffix,
           style_of = style, timestamp_of = t\<rparr>"
  using assms by (simp add: record_ok_def strip_strip)

lemma main_record_ok:
  assumes "main tok inp session = (e, w')" and "\<forall>d\<in>set (init_history session). record_ok d"
  shows "\<forall>d\<in>set (image_history w'). record_ok d"
proof -
  from main_history [OF assms(1)] consider
    "image_history w' = init_history session" | "image_history w' = []"
  | img style_suffix where "map_of STYLE_PRESETS (selected_style inp) = Some style_suffix"
      "image_history w' =
         take 10 (\<lparr>image_of = img, prompt_of = strip (prompt inp),
                   enhanced_prompt_of = strip (prompt inp) @ style_suffix,
                   style_of = selected_style inp, timestamp_of = now inp\<rparr> # init_history session)"
    by (auto simp: push_history_take)
  then show ?thesis
  proof cases
    case 1
    with assms(2) show ?thesis by simp
  next
    case 2
    then show ?thesis by simp
  next
    case (3 img style_suffix)
    show ?thesis
    proof
      fix d assume "d \<in> set (image_history w')"
      then have "d \<in> set (\<lparr>image_of = img, prompt_of = strip (prompt inp),
                   enhanced_prompt_of = strip (prompt inp) @ style_suffix,
                   style_of = selected_style inp, timestamp_of = now inp\<rparr> # init_history session)"
        unfolding 3(2) by (rule in_set_takeD)
      with assms(2) record_ok_new [OF 3(1)] show "record_ok d"
        by auto
    qed
  qed
qed

section \<open>The claims\<close>

text \<open>
  Claim C1. For every prompt (so for every prompt that is non-empty after stripping)
  and every key of the style table, the enhanced prompt is the stripped prompt followed
  by the table's suffix for the key: it starts with the stripped prompt and ends with
  that suffix. The key that stands for no style, which the style select box offers
  first and the table spells \<^verbatim>\<open>"None"\<close>, has the empty string as its suffix, so
  the enhanced prompt for it is the stripped prompt. The select box offers exactly the
  keys of the table, so a run only ever composes with one of them.
\<close>

theorem C1_enhanced_prompt:
  "map_of STYLE_PRESETS ''None'' = Some ''''
   \<and> enhanced_prompt p ''None'' = Inr (strip p)
   \<and> (map_of STYLE_PRESETS style = Some style_suffix \<longrightarrow>
         enhanced_prompt p style = Inr (strip p @ style_suffix)
         \<and> (\<exists>e. enhanced_prompt p style = Inr e \<and> prefix (strip p) e \<and> suffix style_suffix e))"
proof -
  have none: "map_of STYLE_PRESETS ''None'' = Some ''''"
    by (simp add: STYLE_PRESETS_def)
  have eq: "enhanced_prompt p k = Inr (strip p @ s)" if "map_of STYLE_PRESETS k = Some s" for k s
    using that by (simp add: enhanced_prompt_def getitem_def)
  from eq [OF none] have "enhanced_prompt p ''None'' = Inr (strip p)"
    by simp
  with none eq [of style style_suffix] show ?thesis
    by (auto simp: suffix_def simp del: map_of_eq_Some_iff)
qed

theorem C1_enhanced_prompt_witness:
  "map_of STYLE_PRESETS ''Watercolor''
     = Some '', watercolor painting, soft colors, artistic, delicate brushstrokes''
   \<and> enhanced_prompt ''  a lake  '' ''Watercolor''
     = Inr ''a lake, watercolor painting, soft colors, artistic, delicate brushstrokes''
   \<and> enhanced_prompt ''  a lake  '' ''None'' = Inr ''a lake''"
proof -
  have key: "map_of STYLE_PRESETS ''Watercolor''
     = Some '', watercolor painting, soft colors, artistic, delicate brushstrokes''"
    by (simp add: STYLE_PRESETS_def)
  have stripped: "strip ''  a lake  '' = ''a lake''"
    by (simp add: strip_def isspace_def)
  note C1 = C1_enhanced_prompt [of "''  a lake  ''" "''Watercolor''"
      "'', watercolor painting, soft colors, artistic, delicate brushstrokes''"]
  from C1 have "enhanced_prompt ''  a lake  '' ''None'' = Inr (strip ''  a lake  '')"
    by (elim conjE)
  then have a: "enhanced_prompt ''  a lake  '' ''None'' = Inr ''a lake''"
    by (simp only: stripped)
  from C1 key have "enhanced_prompt ''  a lake  '' ''Watercolor''
     = Inr (strip ''  a lake  '' @ '', watercolor painting, soft colors, artistic, delicate brushstrokes'')"
    by blast
  then have b: "enhanced_prompt ''  a lake  '' ''Watercolor''
     = Inr ''a lake, watercolor painting, soft colors, artistic, delicate brushstrokes''"
    by (simp only: stripped) simp
  from key a b show ?thesis by (intro conjI)
qed

text \<open>
  Claim C2. The message shown for a failed remote call stands for exactly the kind the
  specification's precedence gives: model loading for a text with "503" or, in any
  case of letters, "loading"; else rate limit for "429" or "rate limit"; else
  authentication for "401" or "unauthorized"; else the unknown kind with the raw text
  unchanged. A failing call shows that one message and yields no image.
\<close>

theorem C2_error_classification:
  "kind_of (error_message msg :: ('img, 'ts) ui_event) = Some (spec_classify msg)
   \<and> (remote p = Inl msg \<longrightarrow>
        generate_image remote p (w :: ('img, 'ts) world)
          = (None, w\<lparr>calls := calls w @ [p], ui := ui w @ [error_message msg]\<rparr>))"
  by (simp add: error_message_def spec_classify_def str_in_sublist sublist_lower generate_image_Inl)

theorem C2_error_classification_witness:
  "spec_classify ''Error 503: loading'' = ModelLoading
   \<and> spec_classify ''429 Too Many Requests'' = RateLimited
   \<and> spec_classify ''401 unauthorized'' = Unauthorized
   \<and> spec_classify ''Internal Server Error'' = Unknown ''Internal Server Error''
   \<and> generate_image (\<lambda>_. Inl ''Rate Limit exceeded'') ''a cat''
        \<lparr>image_history = [sample_record 1], ui = [], calls = []\<rparr>
      = (None, \<lparr>image_history = [sample_record 1], ui = [Error_rate_limit], calls = [''a cat'']\<rparr>)"
proof -
  have 1: "(error_message ''Error 503: loading'' :: (nat, nat) ui_event) = Error_model_loading"
    by code_simp
  have 2: "(error_message ''429 Too Many Requests'' :: (nat, nat) ui_event) = Error_rate_limit"
    by code_simp
  have 3: "(error_message ''401 unauthorized'' :: (nat, nat) ui_event) = Error_authentication_failed"
    by code_simp
  have 4: "(error_message ''Internal Server Error'' :: (nat, nat) ui_event)
      = Error_occurred ''Internal Server Error''"
    by code_simp
  have 5: "(error_message ''Rate Limit exceeded'' :: (nat, nat) ui_event) = Error_rate_limit"
    by code_simp
  have k: "Some (spec_classify m) = kind_of (error_message m :: (nat, nat) ui_event)" for m
    using C2_error_classification [of m "\<lambda>_. Inl m" "''a cat''"
        "\<lparr>image_history = [sample_record 1], ui = [], calls = []\<rparr>"]
    by simp
  have g: "generate_image (\<lambda>_. Inl ''Rate Limit exceeded'') ''a cat''
        \<lparr>image_history = [sample_record 1], ui = [], calls = []\<rparr>
      = (None, \<lparr>image_history = [sample_record 1], ui = [Error_rate_limit], calls = [''a cat'']\<rparr>)"
    using C2_error_classification [of "''Rate Limit exceeded''" "\<lambda>_. Inl ''Rate Limit exceeded''"
        "''a cat''" "\<lparr>image_history = [sample_record 1], ui = [], calls = []\<rparr>"]
    by (simp add: 5)
  from k [of "''Error 503: loading''"] k [of "''429 Too Many Requests''"]
    k [of "''401 unauthorized''"] k [of "''Internal Server Error''"] g
  show ?thesis
    by (simp add: 1 2 3 4)
qed

text \<open>
  Claim C3. The history never holds more than 10 records. Pushing a record puts it at
  index 0 and keeps the first 10 entries of the result, so the pushed list is never
  longer than 10; every state a session can reach has at most 10 records; and pushing
  11 records one after the other (\<open>ds\<close> in the order they are pushed) leaves exactly
  the last 10 of them, the most recent first, whatever the store held before.
\<close>

theorem C3_history_bound:
  "push_history d h = take 10 (d # h)
   \<and> length (push_history d h) \<le> 10
   \<and> (reachable tok session \<longrightarrow> length (init_history session) \<le> 10)
   \<and> (length ds = 11 \<longrightarrow> fold push_history ds h = rev (tl ds))"
proof -
  have "fold push_history ds h = rev (tl ds)" if len: "length ds = 11"
  proof -
    from len obtain d0 ds' where ds: "ds = d0 # ds'" and len': "length ds' = 10"
      by (cases ds) simp_all
    have "fold push_history ds h = fold push_history ds' (take 10 (d0 # h))"
      by (simp add: ds push_history_take)
    also have "\<dots> = take 10 (rev ds' @ d0 # h)"
      by (rule fold_push_history_take)
    also have "\<dots> = rev ds'"
      using len' by simp
    finally show ?thesis by (simp add: ds)
  qed
  then show ?thesis
    by (simp add: push_history_take reachable_length)
qed

theorem C3_history_bound_witness:
  "push_history (sample_record 11) (map sample_record [10, 9, 8, 7, 6, 5, 4, 3, 2, 1])
     = map sample_record [11, 10, 9, 8, 7, 6, 5, 4, 3, 2]
   \<and> reachable None (None :: (nat, nat) image_data list option)
   \<and> length (init_history (None :: (nat, nat) image_data list option)) \<le> 10
   \<and> length (map sample_record [20, 21, 22, 23, 24, 25, 26, 27, 28, 29, 30]) = 11
   \<and> fold push_history (map sample_record [20, 21, 22, 23, 24, 25, 26, 27, 28, 29, 30])
       (map sample_record [10, 9, 8, 7, 6, 5, 4, 3, 2, 1])
     = map sample_record [30, 29, 28, 27, 26, 25, 24, 23, 22, 21]"
proof -
  let ?h = "map sample_record [10, 9, 8, 7, 6, 5, 4, 3, 2, 1]"
  let ?ds = "map sample_record [20, 21, 22, 23, 24, 25, 26, 27, 28, 29, 30]"
  note C3 = C3_history_bound [of "sample_record 11" ?h None None ?ds]
  have len: "length ?ds = 11"
    by simp
  have fresh: "reachable None (None :: (nat, nat) image_data list option)"
    by (rule reachable.fresh)
  from C3 have "push_history (sample_record 11) ?h = take 10 (sample_record 11 # ?h)"
    by (rule conjunct1)
  then have pushed: "push_history (sample_record 11) ?h
      = map sample_record [11, 10, 9, 8, 7, 6, 5, 4, 3, 2]"
    by simp
  from C3 have "reachable None (None :: (nat, nat) image_data list option)
      \<longrightarrow> length (init_history (None :: (nat, nat) image_data list option)) \<le> 10"
    by (elim conjE)
  with fresh have bound: "length (init_history (None :: (nat, nat) image_data list option)) \<le> 10"
    by (rule rev_mp)
  from C3 have "length ?ds = 11 \<longrightarrow> fold push_history ?ds ?h = rev (tl ?ds)"
    by (elim conjE)
  with len have "fold push_history ?ds ?h = rev (tl ?ds)"
    by (rule rev_mp)
  also have "rev (tl ?ds) = map sample_record [30, 29, 28, 27, 26, 25, 24, 23, 22, 21]"
    by simp
  finally have folded: "fold push_history ?ds ?h
      = map sample_record [30, 29, 28, 27, 26, 25, 24, 23, 22, 21]" .
  from pushed fresh bound len folded show ?thesis
    by (intro conjI)
qed

text \<open>
  Claim C4. When the remote call of a script run fails, the call was the only one of
  the run (no retry), \<^verbatim>\<open>generate_image\<close> returns \<^verbatim>\<open>None\<close> and leaves the history
  alone, the classified error is on the page and the success message is not, and the
  run pushes no record and changes none: the history it leaves is the one it started
  with, unless the clear button of the same run emptied it.
\<close>

theorem C4_failure_leaves_history:
  assumes "main tok inp session = (e, w')"
    and "p \<in> set (calls w')"
    and "text_to_image inp p = Inl msg"
  shows "calls w' = [p]
    \<and> fst (generate_image (text_to_image inp) p w) = None
    \<and> image_history (snd (generate_image (text_to_image inp) p w)) = image_history w
    \<and> error_message msg \<in> set (ui w')
    \<and> Success_image_generated \<notin> set (ui w')
    \<and> (image_history w' = init_history session
        \<or> clear_history_button inp \<and> image_history w' = [])"
proof -
  have gen: "fst (generate_image (text_to_image inp) p w) = None
    \<and> image_history (snd (generate_image (text_to_image inp) p w)) = image_history w"
    using assms(3) by (simp add: generate_image_Inl [of "text_to_image inp" p msg])
  have tok: "\<not> not_token tok"
    using assms(1,2) by (auto simp: main_no_token)
  from assms(1) tok have "calls w' = [p]
    \<and> error_message msg \<in> set (ui w')
    \<and> Success_image_generated \<notin> set (ui w')
    \<and> (image_history w' = init_history session
        \<or> clear_history_button inp \<and> image_history w' = [])"
  proof (cases rule: main_cases)
    case (sidebar_raised k w1)
    then show ?thesis using sidebar_cases [of inp _ "Some k" w1] assms(2) by simp
  next
    case (generation_raised k w1 w2)
    from generation_raised(2) have "w2 = w1"
      by (cases rule: generation_logic_cases) simp_all
    with generation_raised show ?thesis
      using sidebar_cases [of inp _ None w1] assms(2) by simp
  next
    case (completed w1 w2)
    note sb = sidebar_cases [OF completed(1)]
    note hg = history_gallery_cases [OF completed(3)]
    from completed(2) show ?thesis
    proof (cases rule: generation_logic_cases)
      case idle
      with sb hg assms(2) show ?thesis by simp
    next
      case empty
      with sb hg assms(2) show ?thesis by simp
    next
      case keyerror
      then show ?thesis by simp
    next
      case (failed style_suffix msg')
      have p: "p = strip (prompt inp) @ style_suffix"
        using failed sb hg assms(2) by simp
      with failed assms(3) have msg: "msg' = msg"
        by simp
      have c: "calls w' = [p]"
        using failed sb hg p by simp
      have u: "error_message msg \<in> set (ui w')" "Success_image_generated \<notin> set (ui w')"
        using failed sb hg msg by auto
      have h: "image_history w' = init_history session
        \<or> clear_history_button inp \<and> image_history w' = []"
        using failed sb hg by (cases "clear_history_button inp") simp_all
      from c u h show ?thesis by simp
    next
      case (succeeded style_suffix img)
      have "p = strip (prompt inp) @ style_suffix"
        using succeeded sb hg assms(2) by simp
      with succeeded assms(3) show ?thesis by simp
    qed
  qed
  with gen show ?thesis by simp
qed

theorem C4_failure_leaves_history_witness:
  "main (Some ''hf_token'') (sample_inputs ''None'' ''a cat'' (Inl ''Error 503: loading''))
     (Some [sample_record 1])
   = (None, \<lparr>image_history = [sample_record 1],
             ui = [Error_model_loading, History_gallery [sample_record 1]],
             calls = [''a cat'']\<rparr>)
   \<and> text_to_image (sample_inputs ''None'' ''a cat'' (Inl ''Error 503: loading'')) ''a cat''
     = Inl ''Error 503: loading''
   \<and> fst (generate_image
        (text_to_image (sample_inputs ''None'' ''a cat'' (Inl ''Error 503: loading''))) ''a cat''
        \<lparr>image_history = [sample_record 1], ui = [], calls = []\<rparr>) = None
   \<and> init_history (Some [sample_record 1]) = [sample_record 1]"
proof -
  let ?inp = "sample_inputs ''None'' ''a cat'' (Inl ''Error 503: loading'')"
  let ?w = "\<lparr>image_history = [sample_record 1],
             ui = [Error_model_loading, History_gallery [sample_record 1]],
             calls = [''a cat'']\<rparr>"
  have run: "main (Some ''hf_token'') ?inp (Some [sample_record 1]) = (None, ?w)"
    by code_simp
  have sent: "''a cat'' \<in> set (calls ?w)"
    by simp
  have fails: "text_to_image ?inp ''a cat'' = Inl ''Error 503: loading''"
    by (simp add: sample_inputs_def)
  have init: "init_history (Some [sample_record 1]) = [sample_record 1]"
    by (simp add: init_history_def)
  from C4_failure_leaves_history [OF run sent fails,
      of "\<lparr>image_history = [sample_record 1], ui = [], calls = []\<rparr>"]
  have "fst (generate_image (text_to_image ?inp) ''a cat''
        \<lparr>image_history = [sample_record 1], ui = [], calls = []\<rparr>) = None"
    by (elim conjE)
  with run fails init show ?thesis
    by (intro conjI)
qed

text \<open>
  Claim C5. For a prompt that is empty after stripping, the generation block only shows
  the warning: whatever the style key is, no suffix is looked up. A whole run with the
  token set and a style of the table shows the warning, sends nothing to the remote
  endpoint, shows no enhanced prompt and no success, and leaves the history as it was
  (unless the clear button of the same run emptied it).
\<close>

theorem C5_empty_prompt:
  assumes "strip (prompt inp) = []" and "generate_button inp"
  shows "generation_logic inp w = (None, emit Warning_enter_description w)
    \<and> (\<not> not_token tok \<and> map_of STYLE_PRESETS (selected_style inp) = Some style_suffix
        \<and> main tok inp session = (e, w') \<longrightarrow>
          Warning_enter_description \<in> set (ui w')
          \<and> calls w' = []
          \<and> (\<forall>p. Code_enhanced_prompt p \<notin> set (ui w'))
          \<and> Success_image_generated \<notin> set (ui w')
          \<and> (image_history w' = init_history session
              \<or> clear_history_button inp \<and> image_history w' = []))"
proof -
  have block: "generation_logic inp w = (None, emit Warning_enter_description w)" for w
    using assms by (simp add: generation_logic_def)
  have "Warning_enter_description \<in> set (ui w')
          \<and> calls w' = []
          \<and> (\<forall>p. Code_enhanced_prompt p \<notin> set (ui w'))
          \<and> Success_image_generated \<notin> set (ui w')
          \<and> (image_history w' = init_history session
              \<or> clear_history_button inp \<and> image_history w' = [])"
    if tok: "\<not> not_token tok"
      and key: "map_of STYLE_PRESETS (selected_style inp) = Some style_suffix"
      and run: "main tok inp session = (e, w')"
    using run tok
  proof (cases rule: main_cases)
    case (sidebar_raised k w1)
    from sidebar_cases [OF sidebar_raised(1)] key show ?thesis by simp
  next
    case (generation_raised k w1 w2)
    then show ?thesis by (simp add: block)
  next
    case (completed w1 w2)
    note sb = sidebar_cases [OF completed(1)]
    note hg = history_gallery_cases [OF completed(3)]
    from completed(2) have w2: "w2 = emit Warning_enter_description w1"
      by (simp add: block)
    have h: "image_history w' = init_history session
        \<or> clear_history_button inp \<and> image_history w' = []"
      using w2 sb hg by (cases "clear_history_button inp") simp_all
    from w2 sb hg h show ?thesis by auto
  qed
  with block show ?thesis by blast
qed

theorem C5_empty_prompt_witness:
  "strip (prompt (sample_inputs ''Anime'' [CHR '' '', CHR 0x09, CHR 0x0A] (Inr 1))) = []
   \<and> generate_button (sample_inputs ''Anime'' [CHR '' '', CHR 0x09, CHR 0x0A] (Inr 1))
   \<and> main (Some ''hf_token'') (sample_inputs ''Anime'' [CHR '' '', CHR 0x09, CHR 0x0A] (Inr 1))
        (Some [sample_record 1])
     = (None,
        \<lparr>image_history = [sample_record 1],
         ui = [Info_style_adds
                 '', anime style, vibrant colors, Studio Ghibli inspired, detailed illustration'',
               Warning_enter_description, History_gallery [sample_record 1]],
         calls = []\<rparr>)
   \<and> generation_logic (sample_inputs ''no such style'' [CHR '' '', CHR 0x09, CHR 0x0A] (Inr 1))
        \<lparr>image_history = [sample_record 1], ui = [], calls = []\<rparr>
     = (None, \<lparr>image_history = [sample_record 1], ui = [Warning_enter_description], calls = []\<rparr>)"
proof -
  let ?p = "[CHR '' '', CHR 0x09, CHR 0x0A]"
  let ?inp = "sample_inputs ''Anime'' ?p (Inr 1)"
  let ?inp' = "sample_inputs ''no such style'' ?p (Inr 1)"
  let ?w = "\<lparr>image_history = [sample_record 1], ui = [], calls = []\<rparr>"
  have e: "strip (prompt ?inp) = []" "strip (prompt ?inp') = []"
    by (simp_all add: sample_inputs_def strip_def isspace_def)
  have g: "generate_button ?inp" "generate_button ?inp'"
    by (simp_all add: sample_inputs_def)
  have run: "main (Some ''hf_token'') ?inp (Some [sample_record 1])
     = (None,
        \<lparr>image_history = [sample_record 1],
         ui = [Info_style_adds
                 '', anime style, vibrant colors, Studio Ghibli inspired, detailed illustration'',
               Warning_enter_description, History_gallery [sample_record 1]],
         calls = []\<rparr>)"
    by code_simp
  from C5_empty_prompt [OF e(2) g(2), of ?w]
  have "generation_logic ?inp' ?w = (None, emit Warning_enter_description ?w)"
    by (rule conjunct1)
  then have "generation_logic ?inp' ?w
     = (None, \<lparr>image_history = [sample_record 1], ui = [Warning_enter_description], calls = []\<rparr>)"
    by (simp add: emit_def)
  with e(1) g(1) run show ?thesis
    by (intro conjI)
qed

text \<open>
  Claim C6. For the prompt "a red fox" and the style "Anime" the enhanced prompt is
  "a red fox, anime style, vibrant colors, Studio Ghibli inspired, detailed
  illustration"; when the remote call for it succeeds, the run sends exactly that
  prompt and the history then starts, at index 0, with the record holding the returned
  image, the prompt "a red fox" and that enhanced prompt.
\<close>

theorem C6_red_fox:
  assumes "prompt inp = ''a red fox''" and "selected_style inp = ''Anime''"
    and "generate_button inp" and "\<not> clear_history_button inp" and "\<not> not_token tok"
    and "text_to_image inp
           ''a red fox, anime style, vibrant colors, Studio Ghibli inspired, detailed illustration''
         = Inr img"
  shows "enhanced_prompt ''a red fox'' ''Anime''
      = Inr ''a red fox, anime style, vibrant colors, Studio Ghibli inspired, detailed illustration''
    \<and> fst (main tok inp session) = None
    \<and> calls (snd (main tok inp session))
      = [''a red fox, anime style, vibrant colors, Studio Ghibli inspired, detailed illustration'']
    \<and> image_history (snd (main tok inp session))
      = take 10
          (\<lparr>image_of = img, prompt_of = ''a red fox'',
            enhanced_prompt_of =
              ''a red fox, anime style, vibrant colors, Studio Ghibli inspired, detailed illustration'',
            style_of = ''Anime'', timestamp_of = now inp\<rparr> # init_history session)
    \<and> image_history (snd (main tok inp session)) ! 0
      = \<lparr>image_of = img, prompt_of = ''a red fox'',
         enhanced_prompt_of =
           ''a red fox, anime style, vibrant colors, Studio Ghibli inspired, detailed illustration'',
         style_of = ''Anime'', timestamp_of = now inp\<rparr>"
proof -
  let ?s = "'', anime style, vibrant colors, Studio Ghibli inspired, detailed illustration''"
  let ?e = "''a red fox, anime style, vibrant colors, Studio Ghibli inspired, detailed illustration''"
  have stripped: "strip (prompt inp) = ''a red fox''"
    by (simp add: assms(1) strip_def isspace_def)
  have key: "map_of STYLE_PRESETS (selected_style inp) = Some ?s"
    by (simp add: assms(2) STYLE_PRESETS_def)
  have app: "strip (prompt inp) @ ?s = ?e"
    by (simp add: stripped)
  have enh: "enhanced_prompt ''a red fox'' ''Anime'' = Inr ?e"
    using key stripped app by (simp add: enhanced_prompt_def getitem_def assms(1,2))
  have ne: "strip (prompt inp) \<noteq> []"
    by (simp add: stripped)
  have ok: "text_to_image inp (strip (prompt inp) @ ?s) = Inr img"
    by (simp only: app assms(6))
  note run = main_succeeded [OF assms(5) assms(3) ne key ok assms(4), of session,
      unfolded app, unfolded stripped assms(2)]
  from run have h: "image_history (snd (main tok inp session))
      = take 10
          (\<lparr>image_of = img, prompt_of = ''a red fox'', enhanced_prompt_of = ?e,
            style_of = ''Anime'', timestamp_of = now inp\<rparr> # init_history session)"
    by (elim conjE)
  have h0: "image_history (snd (main tok inp session)) ! 0
      = \<lparr>image_of = img, prompt_of = ''a red fox'', enhanced_prompt_of = ?e,
         style_of = ''Anime'', timestamp_of = now inp\<rparr>"
    by (simp only: h) simp
  from run have c: "calls (snd (main tok inp session)) = [?e]"
    by (elim conjE)
  from run have f: "fst (main tok inp session) = None"
    by (rule conjunct1)
  from enh f c h h0 show ?thesis
    by (intro conjI)
qed

theorem C6_red_fox_witness:
  "prompt (sample_inputs ''Anime'' ''a red fox'' (Inr 42)) = ''a red fox''
   \<and> selected_style (sample_inputs ''Anime'' ''a red fox'' (Inr 42)) = ''Anime''
   \<and> generate_button (sample_inputs ''Anime'' ''a red fox'' (Inr 42))
   \<and> \<not> clear_history_button (sample_inputs ''Anime'' ''a red fox'' (Inr 42))
   \<and> \<not> not_token (Some ''hf_token'')
   \<and> image_history (snd (main (Some ''hf_token'') (sample_inputs ''Anime'' ''a red fox'' (Inr 42))
        (Some [sample_record 1])))
     = [\<lparr>image_of = 42, prompt_of = ''a red fox'',
         enhanced_prompt_of =
           ''a red fox, anime style, vibrant colors, Studio Ghibli inspired, detailed illustration'',
         style_of = ''Anime'', timestamp_of = 7\<rparr>,
        sample_record 1]"
proof -
  let ?inp = "sample_inputs ''Anime'' ''a red fox'' (Inr 42)"
  have a: "prompt ?inp = ''a red fox''" "selected_style ?inp = ''Anime''"
    "generate_button ?inp" "\<not> clear_history_button ?inp"
    by (simp_all add: sample_inputs_def)
  have t: "\<not> not_token (Some ''hf_token'')"
    by (simp add: not_token_def)
  have r: "text_to_image ?inp
      ''a red fox, anime style, vibrant colors, Studio Ghibli inspired, detailed illustration''
      = Inr 42"
    by (simp add: sample_inputs_def)
  have n: "now ?inp = 7"
    by (simp add: sample_inputs_def)
  have i: "init_history (Some [sample_record 1]) = [sample_record 1]"
    by (simp add: init_history_def)
  note C6 = C6_red_fox [OF a t r, of "Some [sample_record 1]", unfolded n i]
  from C6 have "image_history (snd (main (Some ''hf_token'') ?inp (Some [sample_record 1])))
     = take 10 [\<lparr>image_of = 42, prompt_of = ''a red fox'',
         enhanced_prompt_of =
           ''a red fox, anime style, vibrant colors, Studio Ghibli inspired, detailed illustration'',
         style_of = ''Anime'', timestamp_of = 7\<rparr>,
        sample_record 1]"
    by (elim conjE)
  then have "image_history (snd (main (Some ''hf_token'') ?inp (Some [sample_record 1])))
     = [\<lparr>image_of = 42, prompt_of = ''a red fox'',
         enhanced_prompt_of =
           ''a red fox, anime style, vibrant colors, Studio Ghibli inspired, detailed illustration'',
         style_of = ''Anime'', timestamp_of = 7\<rparr>,
        sample_record 1]"
    by simp
  with a t show ?thesis
    by (intro conjI)
qed

text \<open>
  Claim C7, amended. The record a successful generation stores holds the stripped
  prompt, \<^verbatim>\<open>prompt.strip()\<close> (line 166), not the text as it was typed: for a prompt
  typed with surrounding whitespace the stored prompt differs from the raw one. In every
  run that shows the success message (the clear button not pressed), the history starts
  with a record whose prompt field is the stripped prompt.
\<close>

theorem C7_stored_prompt_stripped:
  assumes "main tok inp session = (e, w')"
    and "Success_image_generated \<in> set (ui w')"
    and "\<not> clear_history_button inp"
  shows "\<exists>d h. image_history w' = d # h \<and> prompt_of d = strip (prompt inp)"
proof -
  have tok: "\<not> not_token tok"
    using assms(1,2) by (auto simp: main_no_token)
  from assms(1) tok show ?thesis
  proof (cases rule: main_cases)
    case (sidebar_raised k w1)
    from sidebar_cases [OF sidebar_raised(1)] sidebar_raised(3) assms(2) show ?thesis by auto
  next
    case (generation_raised k w1 w2)
    from generation_raised(2) have "w2 = w1"
      by (cases rule: generation_logic_cases) simp_all
    with sidebar_cases [OF generation_raised(1)] generation_raised(4) assms(2)
    show ?thesis by auto
  next
    case (completed w1 w2)
    note sb = sidebar_cases [OF completed(1)]
    note hg = history_gallery_cases [OF completed(3)]
    from completed(2) show ?thesis
    proof (cases rule: generation_logic_cases)
      case (succeeded style_suffix img)
      with hg assms(3) show ?thesis
        by (simp add: push_history_take)
    qed (use sb hg assms(2) in auto)
  qed
qed

theorem C7_stored_prompt_stripped_witness:
  "main (Some ''hf_token'') (sample_inputs ''None'' '' a red fox '' (Inr 42)) None
     = (None,
        \<lparr>image_history =
           [\<lparr>image_of = 42, prompt_of = ''a red fox'', enhanced_prompt_of = ''a red fox'',
             style_of = ''None'', timestamp_of = 7\<rparr>],
         ui = [Success_image_generated,
               History_gallery
                 [\<lparr>image_of = 42, prompt_of = ''a red fox'', enhanced_prompt_of = ''a red fox'',
                   style_of = ''None'', timestamp_of = 7\<rparr>]],
         calls = [''a red fox'']\<rparr>)
   \<and> \<not> clear_history_button (sample_inputs ''None'' '' a red fox '' (Inr 42))
   \<and> (\<exists>d h. [\<lparr>image_of = 42 :: nat, prompt_of = ''a red fox'', enhanced_prompt_of = ''a red fox'',
                style_of = ''None'', timestamp_of = 7 :: nat\<rparr>] = d # h
          \<and> prompt_of d = strip (prompt (sample_inputs ''None'' '' a red fox '' (Inr 42))))"
proof -
  let ?inp = "sample_inputs ''None'' '' a red fox '' (Inr 42)"
  let ?d = "\<lparr>image_of = 42, prompt_of = ''a red fox'', enhanced_prompt_of = ''a red fox'',
             style_of = ''None'', timestamp_of = 7\<rparr> :: (nat, nat) image_data"
  let ?w = "\<lparr>image_history = [?d], ui = [Success_image_generated, History_gallery [?d]],
             calls = [''a red fox'']\<rparr>"
  have run: "main (Some ''hf_token'') ?inp None = (None, ?w)"
    by code_simp
  have shown: "Success_image_generated \<in> set (ui ?w)"
    by simp
  have nc: "\<not> clear_history_button ?inp"
    by (simp add: sample_inputs_def)
  from C7_stored_prompt_stripped [OF run shown nc]
  have "\<exists>d h. [?d] = d # h \<and> prompt_of d = strip (prompt ?inp)"
    by simp
  with run nc show ?thesis
    by (intro conjI)
qed

theorem C7_raw_prompt_counterexample:
  "map prompt_of (image_history (snd (main (Some ''hf_token'')
      (sample_inputs ''None'' '' a red fox '' (Inr 42)) None))) = [''a red fox'']
   \<and> map prompt_of (image_history (snd (main (Some ''hf_token'')
      (sample_inputs ''None'' '' a red fox '' (Inr 42)) None)))
     \<noteq> [prompt (sample_inputs ''None'' '' a red fox '' (Inr 42))]"
  by code_simp

text \<open>
  Claim C8. Clearing empties the history whatever it held: a run with the clear button
  pressed (token set, style of the table) ends with the empty history, whatever the
  session state before and whatever else the run did; on a non-empty history the
  gallery's clear button stores the empty list and reruns the script. The run after
  that, when it generates nothing, still has the empty history and draws no gallery.
\<close>

theorem C8_clear_empties:
  assumes "\<not> not_token tok"
    and "map_of STYLE_PRESETS (selected_style inp) = Some style_suffix"
    and "clear_history_button inp"
  shows "image_history (snd (main tok inp session)) = []
    \<and> (image_history w \<noteq> [] \<longrightarrow>
         history_gallery inp w = (Some RerunException, w\<lparr>image_history := []\<rparr>))
    \<and> (\<not> generate_button inp' \<longrightarrow>
         image_history (snd (main tok inp' (Some []))) = []
         \<and> (\<forall>h. History_gallery h \<notin> set (ui (snd (main tok inp' (Some []))))))"
proof -
  obtain e w' where run: "main tok inp session = (e, w')"
    by (cases "main tok inp session")
  from run assms(1) have "image_history w' = []"
  proof (cases rule: main_cases)
    case (sidebar_raised k w1)
    from sidebar_cases [OF sidebar_raised(1)] assms(2) show ?thesis by simp
  next
    case (generation_raised k w1 w2)
    from generation_raised(2) assms(2) show ?thesis
      by (cases rule: generation_logic_cases) simp_all
  next
    case (completed w1 w2)
    from history_gallery_cases [OF completed(3)] assms(3) show ?thesis by simp
  qed
  with run have first: "image_history (snd (main tok inp session)) = []"
    by simp
  have second: "history_gallery inp w = (Some RerunException, w\<lparr>image_history := []\<rparr>)"
    if "image_history w \<noteq> []"
    using that assms(3) by (simp add: history_gallery_def)
  have third: "image_history (snd (main tok inp' (Some []))) = []
         \<and> (\<forall>h. History_gallery h \<notin> set (ui (snd (main tok inp' (Some [])))))"
    if idle: "\<not> generate_button inp'"
  proof -
    obtain e2 w2' where run2: "main tok inp' (Some []) = (e2, w2')"
      by (cases "main tok inp' (Some [])")
    from run2 assms(1) have "image_history w2' = [] \<and> (\<forall>h. History_gallery h \<notin> set (ui w2'))"
    proof (cases rule: main_cases)
      case (sidebar_raised k w1)
      from sidebar_cases [OF sidebar_raised(1)] sidebar_raised(3) show ?thesis
        by (auto simp: init_history_def)
    next
      case (generation_raised k w1 w2)
      from generation_raised(2) idle show ?thesis
        by (cases rule: generation_logic_cases) simp_all
    next
      case (completed w1 w2)
      note sb = sidebar_cases [OF completed(1)]
      from completed(2) idle have "w2 = w1"
        by (cases rule: generation_logic_cases) simp_all
      with sb history_gallery_cases [OF completed(3)] show ?thesis
        by (auto simp: init_history_def)
    qed
    with run2 show ?thesis by simp
  qed
  from first second third show ?thesis by blast
qed

theorem C8_clear_empties_witness:
  "\<not> not_token (Some ''hf_token'')
   \<and> clear_history_button
        ((sample_inputs ''None'' ''a cat'' (Inr 3))\<lparr>clear_history_button := True\<rparr>)
   \<and> image_history (snd (main (Some ''hf_token'')
        ((sample_inputs ''None'' ''a cat'' (Inr 3))\<lparr>clear_history_button := True\<rparr>)
        (Some [sample_record 2, sample_record 1]))) = []
   \<and> history_gallery ((sample_inputs ''None'' ''a cat'' (Inr 3))\<lparr>clear_history_button := True\<rparr>)
        \<lparr>image_history = [sample_record 2, sample_record 1], ui = [], calls = []\<rparr>
     = (Some RerunException, \<lparr>image_history = [], ui = [], calls = []\<rparr>)
   \<and> image_history (snd (main (Some ''hf_token'')
        ((sample_inputs ''None'' ''a cat'' (Inr 3))\<lparr>generate_button := False\<rparr>) (Some []))) = []"
proof -
  let ?inp = "(sample_inputs ''None'' ''a cat'' (Inr 3))\<lparr>clear_history_button := True\<rparr>"
  let ?inp' = "(sample_inputs ''None'' ''a cat'' (Inr 3))\<lparr>generate_button := False\<rparr>"
  let ?w = "\<lparr>image_history = [sample_record 2, sample_record 1], ui = [], calls = []\<rparr>
      :: (nat, nat) world"
  have t: "\<not> not_token (Some ''hf_token'')"
    by (simp add: not_token_def)
  have k: "map_of STYLE_PRESETS (selected_style ?inp) = Some ''''"
    by (simp add: sample_inputs_def STYLE_PRESETS_def)
  have c: "clear_history_button ?inp"
    by simp
  have ne: "image_history ?w \<noteq> []"
    by simp
  have idle: "\<not> generate_button ?inp'"
    by simp
  note C8 = C8_clear_empties [OF t k c, of "Some [sample_record 2, sample_record 1]" ?w ?inp']
  from C8 have 1: "image_history (snd (main (Some ''hf_token'') ?inp
      (Some [sample_record 2, sample_record 1]))) = []"
    by (rule conjunct1)
  from C8 ne have "history_gallery ?inp ?w = (Some RerunException, ?w\<lparr>image_history := []\<rparr>)"
    by blast
  then have 2: "history_gallery ?inp ?w
      = (Some RerunException, \<lparr>image_history = [], ui = [], calls = []\<rparr>)"
    by simp
  from C8 idle have 3: "image_history (snd (main (Some ''hf_token'') ?inp' (Some []))) = []"
    by blast
  from t c 1 2 3 show ?thesis
    by (intro conjI)
qed

text \<open>
  Claim C9. Without the token (unset, or set to the empty string) every script run
  shows the error and the setup instructions and stops there: it sends nothing to the
  remote endpoint and leaves the history alone. So, as long as the token is missing,
  the history of the session stays empty.
\<close>

theorem C9_missing_token:
  assumes "not_token tok"
  shows "main tok inp session
      = (Some StopException,
         \<lparr>image_history = init_history session,
          ui = [Error_token_not_found, Info_setup_instructions], calls = []\<rparr>)
    \<and> (reachable tok s \<longrightarrow> init_history s = [])"
  using assms by (simp add: main_no_token reachable_no_token)

theorem C9_missing_token_witness:
  "not_token None
   \<and> main None (sample_inputs ''Anime'' ''a cat'' (Inr 3)) None
     = (Some StopException,
        \<lparr>image_history = [], ui = [Error_token_not_found, Info_setup_instructions], calls = []\<rparr>)
   \<and> reachable None (Some ([] :: (nat, nat) image_data list))
   \<and> init_history (Some ([] :: (nat, nat) image_data list)) = []"
proof -
  let ?inp = "sample_inputs ''Anime'' ''a cat'' (Inr 3)"
  have n: "not_token None"
    by (simp add: not_token_def)
  have i: "init_history (None :: (nat, nat) image_data list option) = []"
    by (simp add: init_history_def)
  note C9 = C9_missing_token [OF n, of ?inp None "Some []", unfolded i]
  from C9 have run: "main None ?inp None
     = (Some StopException,
        \<lparr>image_history = [], ui = [Error_token_not_found, Info_setup_instructions], calls = []\<rparr>)"
    by (rule conjunct1)
  from reachable.rerun [OF reachable.fresh run]
  have r: "reachable None (Some ([] :: (nat, nat) image_data list))"
    by simp
  from C9 r have "init_history (Some ([] :: (nat, nat) image_data list)) = []"
    by blast
  with n run r show ?thesis
    by (intro conjI)
qed

text \<open>
  Claim C10. In every state a session can reach, every record of the history has a
  style that is a key of the table, an enhanced prompt equal to its stored prompt
  followed by that key's suffix, and a stored prompt that is its own strip.
\<close>

theorem C10_record_invariant:
  "reachable tok session \<Longrightarrow> \<forall>d\<in>set (init_history session). record_ok d"
proof (induction rule: reachable.induct)
  case fresh
  show ?case by (simp add: init_history_def)
next
  case (rerun session inp e w)
  from main_record_ok [OF rerun(2) rerun(3)] show ?case
    by (simp add: init_history_def)
qed

theorem C10_record_invariant_witness:
  "reachable (Some ''hf_token'')
     (Some [\<lparr>image_of = 42 :: nat, prompt_of = ''a red fox'',
             enhanced_prompt_of =
               ''a red fox, anime style, vibrant colors, Studio Ghibli inspired, detailed illustration'',
             style_of = ''Anime'', timestamp_of = 7 :: nat\<rparr>])
   \<and> record_ok \<lparr>image_of = 42 :: nat, prompt_of = ''a red fox'',
        enhanced_prompt_of =
          ''a red fox, anime style, vibrant colors, Studio Ghibli inspired, detailed illustration'',
        style_of = ''Anime'', timestamp_of = 7 :: nat\<rparr>"
proof -
  let ?d = "\<lparr>image_of = 42 :: nat, prompt_of = ''a red fox'',
             enhanced_prompt_of =
               ''a red fox, anime style, vibrant colors, Studio Ghibli inspired, detailed illustration'',
             style_of = ''Anime'', timestamp_of = 7 :: nat\<rparr>"
  have run: "main (Some ''hf_token'') (sample_inputs ''Anime'' ''  a red fox '' (Inr 42)) None
      = (None,
         \<lparr>image_history = [?d],
          ui = [Info_style_adds
                  '', anime style, vibrant colors, Studio Ghibli inspired, detailed illustration'',
                Code_enhanced_prompt
                  ''a red fox, anime style, vibrant colors, Studio Ghibli inspired, detailed illustration'',
                Success_image_generated, History_gallery [?d]],
          calls =
            [''a red fox, anime style, vibrant colors, Studio Ghibli inspired, detailed illustration'']\<rparr>)"
    by code_simp
  from reachable.rerun [OF reachable.fresh run]
  have r: "reachable (Some ''hf_token'') (Some [?d])"
    by simp
  from C10_record_invariant [OF r] have "record_ok ?d"
    by (simp add: init_history_def)
  with r show ?thesis
    by (intro conjI)
qed

end
